theory Spec2Isabelle
  imports Complex_Main "HOL-Library.Sublist" "HOL-Library.FSet"
begin

section \<open>Python string operations used by the formatter and the generator\<close>

text \<open>
  Strings are character lists. \<open>py_in sub s\<close> is Python's \<^verbatim>\<open>sub in s\<close>,
  \<open>str_replace old new s\<close> is \<^verbatim>\<open>s.replace(old, new)\<close>: a single scan from the
  left that replaces every non-overlapping occurrence of \<open>old\<close> and resumes after the
  replaced occurrence (an empty \<open>old\<close> matches before every character and at the end),
  and \<open>str_join sep xs\<close> is \<^verbatim>\<open>sep.join(xs)\<close>.
\<close>

fun py_in :: "string \<Rightarrow> string \<Rightarrow> bool" where
  "py_in sub [] = (sub = [])"
| "py_in sub (c # cs) = (prefix sub (c # cs) \<or> py_in sub cs)"

fun str_replace :: "string \<Rightarrow> string \<Rightarrow> string \<Rightarrow> string" where
  "str_replace [] new s = new @ concat (map (\<lambda>c. c # new) s)"
| "str_replace (a # r) new [] = []"
| "str_replace (a # r) new (c # cs) =
     (if prefix (a # r) (c # cs)
      then new @ str_replace (a # r) new (drop (length r) cs)
      else c # str_replace (a # r) new cs)"

fun str_join :: "string \<Rightarrow> string list \<Rightarrow> string" where
  "str_join sep [] = []"
| "str_join sep [x] = x"
| "str_join sep (x # y # ys) = x @ sep @ str_join sep (y # ys)"

text \<open>
  \<^verbatim>\<open>re.search(r'\{\{([^}]+)\}\}', text)\<close>: at some position the text reads two
  opening braces, then a non-empty run of characters other than a closing brace, then
  two closing braces. The run is matched greedily and a shorter run is never followed by
  a closing brace, so a match at a position exists exactly when the maximal run is
  non-empty and is followed by the two closing braces.
\<close>

definition cloze_match_here :: "string \<Rightarrow> bool" where
  "cloze_match_here s =
     (prefix ''{{'' s \<and>
      (let r = drop 2 s;
           body = takeWhile (\<lambda>c. c \<noteq> CHR ''}'') r;
           rest = dropWhile (\<lambda>c. c \<noteq> CHR ''}'') r
       in body \<noteq> [] \<and> prefix ''}}'' rest))"

fun cloze_search :: "string \<Rightarrow> bool" where
  "cloze_search [] = False"
| "cloze_search (c # cs) = (cloze_match_here (c # cs) \<or> cloze_search cs)"

section \<open>Flashcards (card\_generator.py)\<close>

datatype CardType =
    CONCEPT | BASIC | CLOZE | DESCRIPTOR | MULTILINE_BASIC | MULTILINE_CONCEPT
  | MULTILINE_DESCRIPTOR | LIST_ANSWER | MULTIPLE_CHOICE

datatype CardDirection = FORWARD | BACKWARD | BIDIRECTIONAL | DISABLED

fun card_type_value :: "CardType \<Rightarrow> string" where
  "card_type_value CONCEPT = ''concept''"
| "card_type_value BASIC = ''basic''"
| "card_type_value CLOZE = ''cloze''"
| "card_type_value DESCRIPTOR = ''descriptor''"
| "card_type_value MULTILINE_BASIC = ''multiline_basic''"
| "card_type_value MULTILINE_CONCEPT = ''multiline_concept''"
| "card_type_value MULTILINE_DESCRIPTOR = ''multiline_descriptor''"
| "card_type_value LIST_ANSWER = ''list_answer''"
| "card_type_value MULTIPLE_CHOICE = ''multiple_choice''"

fun direction_value :: "CardDirection \<Rightarrow> string" where
  "direction_value FORWARD = ''forward''"
| "direction_value BACKWARD = ''backward''"
| "direction_value BIDIRECTIONAL = ''bidirectional''"
| "direction_value DISABLED = ''disabled''"

text \<open>
  The dataclass \<open>Flashcard\<close>. \<open>parent\<close> and \<open>extra_detail\<close> are \<^verbatim>\<open>Optional[str]\<close>.
  \<open>use_triple_delimiter\<close> is not a declared field: the formatter tests it with
  \<^verbatim>\<open>hasattr\<close>, and the tests set it with \<^verbatim>\<open>setattr\<close>; \<open>None\<close> is the attribute
  being absent.
\<close>

record Flashcard =
  card_type :: CardType
  front :: string
  "back" :: string
  parent :: "string option"
  tags :: "string list"
  difficulty :: string
  source_hash :: string
  direction :: CardDirection
  list_items :: "string list"
  correct_choice_index :: int
  extra_detail :: "string option"
  is_multiline :: bool
  use_triple_delimiter :: "bool option"

text \<open>
  The dataclass constructor with only the three required fields given: every other field
  takes its declared default (before \<open>__post_init__\<close> runs).
\<close>

definition new_flashcard :: "CardType \<Rightarrow> string \<Rightarrow> string \<Rightarrow> Flashcard" where
  "new_flashcard ct f b =
     \<lparr>card_type = ct, front = f, back = b, parent = None, tags = [],
      difficulty = ''intermediate'', source_hash = [], direction = FORWARD,
      list_items = [], correct_choice_index = 0, extra_detail = None,
      is_multiline = False, use_triple_delimiter = None\<rparr>"

text \<open>
  \<open>Flashcard.__post_init__\<close>: when no \<open>source_hash\<close> was supplied, the first eight
  characters of the hexadecimal MD5 digest of the content string. The digest comes from
  Python's \<^verbatim>\<open>hashlib\<close>; it is the parameter \<open>md5_hexdigest\<close> here.
\<close>

definition hash_content :: "Flashcard \<Rightarrow> string" where
  "hash_content c =
     (let content = front c @ ''||'' @ back c @ ''||'' @ card_type_value (card_type c)
                    @ ''||'' @ direction_value (direction c)
      in if list_items c \<noteq> [] then content @ ''||'' @ str_join '','' (list_items c)
         else content)"

definition post_init :: "(string \<Rightarrow> string) \<Rightarrow> Flashcard \<Rightarrow> Flashcard" where
  "post_init md5_hexdigest c =
     (if source_hash c = []
      then c\<lparr>source_hash := take 8 (md5_hexdigest (hash_content c))\<rparr>
      else c)"

section \<open>The formatter (remnote\_formatter.py)\<close>

text \<open>
  The formatter's statistics object is only ever written by the functions below; no
  returned text depends on it. The embedding is of the returned text.
\<close>

definition replacements :: "(string \<times> string) list" where
  "replacements =
     [(''::'', '': :''),
      (''>>'', ''> >''),
      (''<<'', ''< <''),
      ('';;'', ''; ;''),
      (''<>'', ''< >''),
      (''#[['', ''# [[''),
      ('']]'', ''] ]'')]"


text \<open>
  \<open>_escape_special_chars\<close>: the seven replacements are applied one after the other, in
  the order of the dictionary, each to the result of the one before. The braces are
  spaced out only when both \<^verbatim>\<open>{{\<close> and \<^verbatim>\<open>}}\<close> occur and no cloze span is found.
\<close>

definition escape_special_chars :: "string \<Rightarrow> string" where
  "escape_special_chars text =
     (if text = [] then text
      else
        let escaped_text =
              fold (\<lambda>(original, replacement) t. str_replace original replacement t)
                   replacements text
        in if py_in ''{{'' escaped_text \<and> py_in ''}}'' escaped_text
           then (if \<not> cloze_search escaped_text
                 then str_replace ''}}'' ''} }'' (str_replace ''{{'' ''{ {'' escaped_text)
                 else escaped_text)
           else escaped_text)"

text \<open>\<open>_format_cloze\<close>: both branches return the card's front as it is.\<close>

definition format_cloze :: "Flashcard \<Rightarrow> string" where
  "format_cloze crd =
     (let text = front crd
      in if \<not> cloze_search text then text else text)"

definition format_multiline_concept :: "Flashcard \<Rightarrow> string" where
  "format_multiline_concept crd =
     (let front' = escape_special_chars (front crd)
      in if use_triple_delimiter crd = Some True
         then front' @ '' :::''
         else
           let back' = escape_special_chars (back crd);
               back_formatted = str_replace [CHR 0x5C, CHR ''n''] (CHR 0x0A # ''    '') back'
           in front' @ '' ::'' @ [CHR 0x0A] @ ''    '' @ back_formatted)"

text \<open>
  \<open>_format_list_answer\<close>: the fallback \<^verbatim>\<open>return\<close> stands after the first
  \<^verbatim>\<open>return\<close> inside the \<^verbatim>\<open>if\<close> block (its \<^verbatim>\<open>else:\<close> is part of a comment),
  so with no list items the function ends without a \<^verbatim>\<open>return\<close> and yields Python's
  \<open>None\<close>.
\<close>

definition format_list_answer :: "Flashcard \<Rightarrow> string option" where
  "format_list_answer crd =
     (let front' = escape_special_chars (front crd)
      in if list_items crd \<noteq> [] then Some (front' @ '' >>1.'') else None)"

definition format_multiple_choice :: "Flashcard \<Rightarrow> string" where
  "format_multiple_choice crd =
     (let front' = escape_special_chars (front crd)
      in if list_items crd \<noteq> [] \<and> length (list_items crd) > 1
         then front' @ '' >>A)''
         else front' @ '' >> '' @ escape_special_chars (back crd))"

definition format_card :: "Flashcard \<Rightarrow> string option" where
  "format_card crd =
     (let front' = escape_special_chars (front crd);
          back' = escape_special_chars (back crd)
      in if direction crd = DISABLED then Some (front' @ '' =- '' @ back')
         else if card_type crd = CONCEPT then
           (if direction crd = FORWARD then Some (front' @ '' :> '' @ back')
            else if direction crd = BACKWARD then Some (front' @ '' :< '' @ back')
            else Some (front' @ '' :: '' @ back'))
         else if card_type crd = BASIC then
           (if direction crd = BACKWARD then Some (front' @ '' << '' @ back')
            else if direction crd = BIDIRECTIONAL then Some (front' @ '' <> '' @ back')
            else Some (front' @ '' >> '' @ back'))
         else if card_type crd = CLOZE then Some (format_cloze crd)
         else if card_type crd = DESCRIPTOR then
           (if direction crd = BACKWARD then Some (front' @ '' ;< '' @ back')
            else if direction crd = FORWARD then Some (front' @ '' ;> '' @ back')
            else Some (front' @ '' ;; '' @ back'))
         else if card_type crd = MULTILINE_CONCEPT then Some (format_multiline_concept crd)
         else if card_type crd = LIST_ANSWER then format_list_answer crd
         else if card_type crd = MULTIPLE_CHOICE then Some (format_multiple_choice crd)
         else Some (front' @ '' >> '' @ back'))"

text \<open>An f-string prints Python's \<open>None\<close> as the text \<^verbatim>\<open>None\<close>.\<close>

fun py_str :: "string option \<Rightarrow> string" where
  "py_str None = ''None''"
| "py_str (Some s) = s"

text \<open>
  The \<^verbatim>\<open>defaultdict(list)\<close> of \<open>_format_hierarchical\<close> keeps its keys in the order
  of first insertion: an association list, appended to at the key or extended at the end.
\<close>

fun dict_append :: "string \<Rightarrow> 'a \<Rightarrow> (string \<times> 'a list) list \<Rightarrow> (string \<times> 'a list) list" where
  "dict_append k v [] = [(k, [v])]"
| "dict_append k v ((k', vs) # rest) =
     (if k = k' then (k', vs @ [v]) # rest else (k', vs) # dict_append k v rest)"

fun dict_has :: "string \<Rightarrow> (string \<times> 'a list) list \<Rightarrow> bool" where
  "dict_has k [] = False"
| "dict_has k ((k', vs) # rest) = (k = k' \<or> dict_has k rest)"

fun dict_get :: "string \<Rightarrow> (string \<times> 'a list) list \<Rightarrow> 'a list" where
  "dict_get k [] = []"
| "dict_get k ((k', vs) # rest) = (if k = k' then vs else dict_get k rest)"

text \<open>\<^verbatim>\<open>if card.parent\<close>: neither \<open>None\<close> nor the empty string.\<close>

fun has_parent :: "Flashcard \<Rightarrow> bool" where
  "has_parent crd = (case parent crd of None \<Rightarrow> False | Some p \<Rightarrow> p \<noteq> [])"

definition group_by_parent ::
  "Flashcard list \<Rightarrow> (string \<times> Flashcard list) list \<times> Flashcard list" where
  "group_by_parent cards =
     fold (\<lambda>crd (hierarchy, root_cards).
             if has_parent crd
             then (dict_append (the (parent crd)) crd hierarchy, root_cards)
             else (hierarchy, root_cards @ [crd]))
          cards ([], [])"

definition child_line :: "Flashcard \<Rightarrow> string" where
  "child_line child = ''    # '' @ py_str (format_card child)"

definition root_lines :: "(string \<times> Flashcard list) list \<Rightarrow> Flashcard \<Rightarrow> string list" where
  "root_lines hierarchy crd =
     (''# '' @ py_str (format_card crd)) #
     (if dict_has (front crd) hierarchy \<or> dict_has (back crd) hierarchy
      then map child_line (dict_get (front crd) hierarchy @ dict_get (back crd) hierarchy)
      else [])"

text \<open>
  The second loop of \<open>_format_hierarchical\<close>, over the items of the dictionary, with
  the set \<open>processed_parents\<close> that starts empty after the root cards were written.
\<close>

fun remaining_lines :: "(string \<times> Flashcard list) list \<Rightarrow> string set \<Rightarrow> string list" where
  "remaining_lines [] processed_parents = []"
| "remaining_lines ((parent_key, children) # rest) processed_parents =
     (if parent_key \<notin> processed_parents
      then (''# '' @ parent_key) # map child_line children
           @ remaining_lines rest (insert parent_key processed_parents)
      else remaining_lines rest processed_parents)"

definition hierarchical_lines :: "Flashcard list \<Rightarrow> string list" where
  "hierarchical_lines cards =
     (let (hierarchy, root_cards) = group_by_parent cards
      in concat (map (root_lines hierarchy) root_cards) @ remaining_lines hierarchy {})"

definition format_hierarchical :: "Flashcard list \<Rightarrow> string" where
  "format_hierarchical cards = str_join [CHR 0x0A] (hierarchical_lines cards)"

definition flat_line :: "Flashcard \<Rightarrow> string" where
  "flat_line crd =
     (let formatted_card = py_str (format_card crd);
          formatted_card =
            (if tags crd \<noteq> []
             then formatted_card @ '' '' @ str_join '' '' (map (\<lambda>tag. ''#'' @ tag) (tags crd))
             else formatted_card)
      in ''# '' @ formatted_card)"

definition format_flat :: "Flashcard list \<Rightarrow> string" where
  "format_flat cards = str_join [CHR 0x0A] (map flat_line cards)"

definition format_cards :: "Flashcard list \<Rightarrow> bool \<Rightarrow> string" where
  "format_cards cards hierarchy =
     (if cards = [] then []
      else if hierarchy then format_hierarchical cards
      else format_flat cards)"


text \<open>The number of leading spaces of an emitted line: its indentation.\<close>

definition indent_of :: "string \<Rightarrow> nat" where
  "indent_of line = length (takeWhile (\<lambda>c. c = CHR '' '') line)"

section \<open>More string operations, used by the generator\<close>




text \<open>
  \<^verbatim>\<open>a, b = s.split(sep, 1)\<close>: a \<open>ValueError\<close> for an empty separator, and a
  \<open>ValueError\<close> from the unpacking when the separator does not occur; otherwise the text
  before and after the first occurrence.
\<close>

datatype exn =
    LLMError string | RateLimitError string | TokenLimitError string | ValueError string
  | OverflowError string | Exception string




section \<open>The card generator (card\_generator.py)\<close>


text \<open>
  The \<open>config\<close> dictionary of a prompt file, read with \<^verbatim>\<open>.get(key, default)\<close>:
  each key may be absent.
\<close>

record prompt_config =
  cfg_temperature :: "real option"
  cfg_separator :: "string option"
  cfg_max_cards :: "int option"

text \<open>
  What the generator is constructed over. The language model and the prompt loader are
  collaborators outside the generator: \<open>llm_generate k prompt temperature\<close> is the outcome
  of the model's \<open>generate\<close> on its \<open>k\<close>-th invocation (a text or a raised exception),
  \<open>get_config\<close> and \<open>format_prompt\<close> are the prompt loader's methods, which raise for a
  missing or malformed prompt file, and \<open>card_types\<close> is the dictionary
  \<^verbatim>\<open>config['card_types']\<close> of enablement flags.
\<close>

record env =
  md5_hexdigest :: "string \<Rightarrow> string"
  llm_generate :: "nat \<Rightarrow> string \<Rightarrow> real \<Rightarrow> exn + string"
  get_config :: "string \<Rightarrow> exn + prompt_config"
  format_prompt :: "string \<Rightarrow> (string \<times> string) list \<Rightarrow> exn + string"
  card_types :: "string \<rightharpoonup> bool"


text \<open>
  The generator's mutable state: the set \<open>generated_cards\<close> of fingerprints seen and the
  dictionary \<open>generation_stats\<close>. \<open>llm_requests\<close> counts the invocations of the language
  model; it belongs to the model's side and selects the outcome of the next invocation.
\<close>

record gen_state =
  generated_cards :: "string fset"
  total_cards :: int
  by_type :: "CardType \<Rightarrow> int"
  duplicates_avoided :: int
  topics_processed :: int
  llm_calls :: int
  llm_requests :: nat

definition init_state :: gen_state where
  "init_state =
     \<lparr>generated_cards = {||}, total_cards = 0, by_type = (\<lambda>_. 0), duplicates_avoided = 0,
      topics_processed = 0, llm_calls = 0, llm_requests = 0\<rparr>"


definition is_unique_card :: "Flashcard \<Rightarrow> gen_state \<Rightarrow> bool \<times> gen_state" where
  "is_unique_card crd st =
     (if source_hash crd |\<in>| generated_cards st
      then (False, st\<lparr>duplicates_avoided := duplicates_avoided st + 1\<rparr>)
      else (True, st))"

definition register_card :: "Flashcard \<Rightarrow> gen_state \<Rightarrow> gen_state" where
  "register_card crd st =
     st\<lparr>generated_cards := finsert (source_hash crd) (generated_cards st),
        total_cards := total_cards st + 1\<rparr>"

text \<open>
  The loop that \<open>generate_cards\<close> runs over the candidates of each kind:
  \<^verbatim>\<open>for card in cards: if self._is_unique_card(card): cards.append(card); self._register_card(card)\<close>
\<close>

fun accept_cards :: "Flashcard list \<Rightarrow> gen_state \<Rightarrow> Flashcard list \<times> gen_state" where
  "accept_cards [] st = ([], st)"
| "accept_cards (crd # rest) st =
     (case is_unique_card crd st of
        (True, st1) \<Rightarrow>
          (case accept_cards rest (register_card crd st1) of
             (accepted, st2) \<Rightarrow> (crd # accepted, st2))
      | (False, st1) \<Rightarrow> accept_cards rest st1)"

definition bump_type :: "CardType \<Rightarrow> gen_state \<Rightarrow> gen_state" where
  "bump_type ct st = st\<lparr>by_type := (by_type st)(ct := by_type st ct + 1)\<rparr>"



















section \<open>The retry wrapper (llm\_client.py)\<close>

datatype LLMProvider = OPENAI | ANTHROPIC

record LLMConfig =
  provider :: LLMProvider
  model :: string
  api_key :: string
  temperature :: real
  max_tokens :: int
  retry_attempts :: int
  retry_delay :: real
  timeout :: real

text \<open>
  \<open>RateLimitError\<close> and \<open>TokenLimitError\<close> are subclasses of \<open>LLMError\<close>;
  \<open>is_LLMError\<close> is \<^verbatim>\<open>isinstance(e, LLMError)\<close> and \<open>exn_str\<close> is \<^verbatim>\<open>str(e)\<close>.
\<close>

fun is_LLMError :: "exn \<Rightarrow> bool" where
  "is_LLMError (LLMError m) = True"
| "is_LLMError (RateLimitError m) = True"
| "is_LLMError (TokenLimitError m) = True"
| "is_LLMError (ValueError m) = False"
| "is_LLMError (OverflowError m) = False"
| "is_LLMError (Exception m) = False"

fun is_RateLimitError :: "exn \<Rightarrow> bool" where
  "is_RateLimitError (RateLimitError m) = True"
| "is_RateLimitError ex = False"

fun exn_str :: "exn \<Rightarrow> string" where
  "exn_str (LLMError m) = m"
| "exn_str (RateLimitError m) = m"
| "exn_str (TokenLimitError m) = m"
| "exn_str (ValueError m) = m"
| "exn_str (OverflowError m) = m"
| "exn_str (Exception m) = m"

text \<open>
  What a call through the wrapper does besides returning: it invokes the wrapped function
  (\<open>calls\<close> counts the invocations) and it sleeps (\<open>sleeps\<close> lists the delays that
  \<^verbatim>\<open>time.sleep\<close> was given and slept, in order).
\<close>

record retry_log =
  calls :: nat
  sleeps :: "real list"

text \<open>
  The delay of an iteration, \<^verbatim>\<open>self.config.retry_delay * (2 ** attempt)\<close>. \<open>retry_delay\<close>
  is declared a float, so the integer power is converted to a float first, and Python
  raises \<open>OverflowError\<close> for that from \<^verbatim>\<open>2 ** 1024\<close> on. Below that, multiplying a
  float by a power of two is exact as long as the product is in the float range, and the
  delay is the real number \<open>retry_delay * 2 ^ attempt\<close>; a product beyond the range is a
  float infinity, which \<^verbatim>\<open>time.sleep\<close> refuses like any delay that is too large. A
  \<open>retry_delay\<close> that is itself infinite or not a number has no real counterpart and is
  outside this model.
\<close>

definition backoff_delay :: "LLMConfig \<Rightarrow> nat \<Rightarrow> exn + real" where
  "backoff_delay cfg attempt =
     (if attempt \<ge> 1024 then Inl (OverflowError ''int too large to convert to float'')
      else Inr (retry_delay cfg * 2 ^ attempt))"

text \<open>
  \<^verbatim>\<open>time.sleep(secs)\<close> of the Python library, as CPython 3 does it: the delay is first
  converted to the platform's clock type, which raises \<open>OverflowError\<close> for a delay
  outside its range, on either side of zero; then a negative delay raises \<open>ValueError\<close>;
  otherwise it sleeps and returns (\<open>None\<close> here). The largest delay the clock type holds
  is the parameter \<open>max_sleep\<close>.
\<close>

definition time_sleep :: "real \<Rightarrow> real \<Rightarrow> exn option" where
  "time_sleep max_sleep secs =
     (if secs > max_sleep \<or> secs < - max_sleep
      then Some (OverflowError ''timestamp too large to convert to C _PyTime_t'')
      else if secs < 0 then Some (ValueError ''sleep length must be non-negative'')
      else None)"

text \<open>
  The two statements of a handler that compute the delay and sleep it: the delay that was
  slept, or the exception that one of the two raised.
\<close>

definition backoff_sleep :: "real \<Rightarrow> LLMConfig \<Rightarrow> nat \<Rightarrow> exn + real" where
  "backoff_sleep max_sleep cfg attempt =
     (case backoff_delay cfg attempt of
        Inl ex \<Rightarrow> Inl ex
      | Inr delay \<Rightarrow>
          (case time_sleep max_sleep delay of
             Some ex \<Rightarrow> Inl ex
           | None \<Rightarrow> Inr delay))"

text \<open>
  \<open>retry_loop\<close> is the \<^verbatim>\<open>for attempt in range(self.config.retry_attempts)\<close> loop from
  iteration \<open>attempt\<close> on, with \<open>remaining\<close> iterations left. The wrapped function is the
  sequence \<open>func\<close> of its outcomes: \<open>func k\<close> is what its \<open>k\<close>-th invocation returns or
  raises. The delay is computed and slept inside the \<^verbatim>\<open>except\<close> handler, so an
  exception from either leaves the wrapper at once, uncaught. When the loop runs out,
  the statement after it raises \<open>LLMError\<close>.
\<close>

fun retry_loop ::
  "real \<Rightarrow> LLMConfig \<Rightarrow> (nat \<Rightarrow> exn + 'a) \<Rightarrow> nat \<Rightarrow> nat \<Rightarrow> exn option \<Rightarrow> retry_log
     \<Rightarrow> (exn + 'a) \<times> retry_log" where
  "retry_loop max_sleep cfg func attempt 0 last_exception lg =
     (Inl (LLMError (''All retry attempts failed: ''
             @ (case last_exception of None \<Rightarrow> ''None'' | Some ex \<Rightarrow> exn_str ex))), lg)"
| "retry_loop max_sleep cfg func attempt (Suc remaining) last_exception lg =
     (let lg1 = lg\<lparr>calls := calls lg + 1\<rparr>
      in case func (calls lg) of
           Inr result \<Rightarrow> (Inr result, lg1)
         | Inl ex \<Rightarrow>
             if is_RateLimitError ex
             then (if int attempt < retry_attempts cfg - 1
                   then (case backoff_sleep max_sleep cfg attempt of
                           Inl sleep_ex \<Rightarrow> (Inl sleep_ex, lg1)
                         | Inr delay \<Rightarrow>
                             retry_loop max_sleep cfg func (attempt + 1) remaining (Some ex)
                               (lg1\<lparr>sleeps := sleeps lg1 @ [delay]\<rparr>))
                   else (Inl ex, lg1))
             else (if int attempt < retry_attempts cfg - 1
                   then (case backoff_sleep max_sleep cfg attempt of
                           Inl sleep_ex \<Rightarrow> (Inl sleep_ex, lg1)
                         | Inr delay \<Rightarrow>
                             retry_loop max_sleep cfg func (attempt + 1) remaining (Some ex)
                               (lg1\<lparr>sleeps := sleeps lg1 @ [delay]\<rparr>))
                   else (Inl (LLMError (''All retry attempts failed: '' @ exn_str ex)), lg1)))"

definition retry_with_backoff ::
  "real \<Rightarrow> LLMConfig \<Rightarrow> (nat \<Rightarrow> exn + 'a) \<Rightarrow> (exn + 'a) \<times> retry_log" where
  "retry_with_backoff max_sleep cfg func =
     retry_loop max_sleep cfg func 0 (nat (retry_attempts cfg)) None \<lparr>calls = 0, sleeps = []\<rparr>"

section \<open>Properties: definitions used in the statements\<close>

text \<open>
  The generator's state invariant: the counter of accepted cards equals the number of
  fingerprints in the session's set.
\<close>

definition stats_inv :: "gen_state \<Rightarrow> bool" where
  "stats_inv st = (total_cards st = int (fcard (generated_cards st)))"



text \<open>The three cards of a parent chain: a root, its child and the child's child.\<close>

definition chain_root :: Flashcard where
  "chain_root = new_flashcard BASIC ''R'' ''r''"

definition chain_child :: Flashcard where
  "chain_child = (new_flashcard BASIC ''C'' ''c'')\<lparr>parent := Some ''R''\<rparr>"

definition chain_grandchild :: Flashcard where
  "chain_grandchild = (new_flashcard BASIC ''G'' ''g'')\<lparr>parent := Some ''C''\<rparr>"

definition list_card :: Flashcard where
  "list_card = (new_flashcard LIST_ANSWER ''Q'' [])\<lparr>list_items := [''alpha'', ''beta'']\<rparr>"

text \<open>An outcome of the wrapped function that is a raised \<open>RateLimitError\<close>.\<close>

definition rate_limited :: "exn + 'a \<Rightarrow> bool" where
  "rate_limited r = (case r of Inl ex \<Rightarrow> is_RateLimitError ex | Inr v \<Rightarrow> False)"

text \<open>
  Every delay the loop can ask for (one after each iteration but the last) is computed and
  slept without an exception.
\<close>

definition delays_accepted :: "real \<Rightarrow> LLMConfig \<Rightarrow> bool" where
  "delays_accepted max_sleep cfg =
     (\<forall>k < nat (retry_attempts cfg - 1).
        backoff_sleep max_sleep cfg k = Inr (retry_delay cfg * 2 ^ k))"

text \<open>
  The default retry settings of \<open>LLMConfig\<close>, three attempts and a base delay of two
  seconds; the same with a negative base delay; and a largest sleep of \<open>2 ^ 63\<close>
  nanoseconds, in seconds.
\<close>

definition demo_config :: LLMConfig where
  "demo_config =
     \<lparr>provider = ANTHROPIC, model = ''m'', api_key = ''k'', temperature = 3 / 10,
      max_tokens = 2000, retry_attempts = 3, retry_delay = 2, timeout = 30\<rparr>"

definition negative_delay_config :: LLMConfig where
  "negative_delay_config = demo_config\<lparr>retry_delay := - 2\<rparr>"

definition demo_max_sleep :: real where
  "demo_max_sleep = 9223372036"

text \<open>
  No character of a two-character token stands three times in a row: no two occurrences
  of a token overlap.
\<close>

definition no_overlap :: "string \<Rightarrow> bool" where
  "no_overlap text = (\<forall>c \<in> set '':><;]''. \<not> py_in [c, c, c] text)"

text \<open>\<open>spaced s t\<close>: the text \<open>t\<close> is \<open>s\<close> with spaces inserted.\<close>

inductive spaced :: "string \<Rightarrow> string \<Rightarrow> bool" where
  spaced_Nil: "spaced [] []"
| spaced_Cons: "spaced s t \<Longrightarrow> spaced (c # s) (c # t)"
| spaced_Ins: "spaced s t \<Longrightarrow> spaced s (CHR '' '' # t)"

code_pred spaced .

text \<open>
  The spec's words for neutralizing, "insert a single space inside the token": one pass
  over the text that, wherever one of the seven tokens begins, puts a single space after
  the token's first character. \<open>mark_starts p\<close> does so wherever \<open>p\<close> holds of the rest
  of the text; \<open>spec_neutralize\<close> is the spec's escaping of the tokens, to be compared
  with the escaper of the source.
\<close>

fun mark_starts :: "(string \<Rightarrow> bool) \<Rightarrow> string \<Rightarrow> string" where
  "mark_starts p [] = []"
| "mark_starts p (c # cs) =
     (if p (c # cs) then c # CHR '' '' # mark_starts p cs else c # mark_starts p cs)"

definition token_starts :: "string \<Rightarrow> bool" where
  "token_starts s = (\<exists>tok \<in> set (map fst replacements). prefix tok s)"

definition spec_neutralize :: "string \<Rightarrow> string" where
  "spec_neutralize text = mark_starts token_starts text"

text \<open>
  The last step of \<open>_escape_special_chars\<close> on its own: the brace pairs are spaced out
  when both occur and no cloze span is found, and left as they are otherwise.
\<close>

definition escape_braces :: "string \<Rightarrow> string" where
  "escape_braces t =
     (if py_in ''{{'' t \<and> py_in ''}}'' t
      then (if \<not> cloze_search t
            then str_replace ''}}'' ''} }'' (str_replace ''{{'' ''{ {'' t)
            else t)
      else t)"

text \<open>The delimiters that \<open>_format_card\<close> writes between a front and a back.\<close>

definition delimiters :: "string list" where
  "delimiters = [''=-'', '':>'', '':<'', ''::'', ''>>'', ''<<'', ''<>'', '';>'', '';<'', '';;'']"

section \<open>The generator's invariant\<close>


lemma bump_type_inv [simp]: "stats_inv (bump_type ct st) = stats_inv st"
  by (simp add: bump_type_def stats_inv_def)

lemma llm_fields_inv [simp]:
  "stats_inv (st\<lparr>llm_requests := r\<rparr>) = stats_inv st"
  "stats_inv (st\<lparr>llm_calls := k\<rparr>) = stats_inv st"
  "stats_inv (st\<lparr>topics_processed := k\<rparr>) = stats_inv st"
  by (simp_all add: stats_inv_def)






















section \<open>The duplicate filter and the fingerprint\<close>

text \<open>
  Claim C6. Two cards with equal fingerprints are submitted to the filter, one after the
  other, in a session that has not seen the fingerprint: the first passes the uniqueness
  check and is registered without the duplicate counter moving, the second fails the
  check, and the duplicate counter is then exactly one higher. The acceptance loop of
  \<open>generate_cards\<close> keeps exactly the first card.
\<close>

theorem dedup_accepts_exactly_one:
  assumes "source_hash c1 = source_hash c2"
    and "source_hash c1 |\<notin>| generated_cards st"
  shows "fst (is_unique_card c1 st)
         \<and> duplicates_avoided (register_card c1 (snd (is_unique_card c1 st)))
             = duplicates_avoided st
         \<and> \<not> fst (is_unique_card c2 (register_card c1 (snd (is_unique_card c1 st))))
         \<and> duplicates_avoided
              (snd (is_unique_card c2 (register_card c1 (snd (is_unique_card c1 st)))))
             = duplicates_avoided st + 1
         \<and> fst (accept_cards [c1, c2] st) = [c1]
         \<and> duplicates_avoided (snd (accept_cards [c1, c2] st)) = duplicates_avoided st + 1"
  using assms by (simp add: is_unique_card_def register_card_def)

theorem dedup_accepts_exactly_one_witness:
  "fst (accept_cards
          [post_init (\<lambda>s. s) (new_flashcard CONCEPT ''A'' ''B''),
           post_init (\<lambda>s. s) (new_flashcard CONCEPT ''A'' ''B'')] init_state)
     = [post_init (\<lambda>s. s) (new_flashcard CONCEPT ''A'' ''B'')]
   \<and> duplicates_avoided
        (snd (accept_cards
                [post_init (\<lambda>s. s) (new_flashcard CONCEPT ''A'' ''B''),
                 post_init (\<lambda>s. s) (new_flashcard CONCEPT ''A'' ''B'')] init_state)) = 1"
  using dedup_accepts_exactly_one
          [of "post_init (\<lambda>s. s) (new_flashcard CONCEPT ''A'' ''B'')"
              "post_init (\<lambda>s. s) (new_flashcard CONCEPT ''A'' ''B'')" init_state]
  by (simp add: init_state_def)

text \<open>
  Claim C7. Two cards constructed without an explicit fingerprint that agree on front,
  back, type, direction and list items get the same computed fingerprint, whatever their
  other fields are.
\<close>

theorem fingerprint_pure:
  assumes "source_hash c1 = []" and "source_hash c2 = []"
    and "front c1 = front c2" and "back c1 = back c2" and "card_type c1 = card_type c2"
    and "direction c1 = direction c2" and "list_items c1 = list_items c2"
  shows "source_hash (post_init h c1) = source_hash (post_init h c2)"
  using assms by (simp add: post_init_def hash_content_def Let_def)

theorem fingerprint_pure_witness:
  "source_hash (post_init (\<lambda>s. s) chain_root)
     = source_hash (post_init (\<lambda>s. s)
         (chain_root\<lparr>parent := Some ''P'', tags := [''t''], difficulty := ''advanced''\<rparr>))"
  using fingerprint_pure
          [of chain_root
              "chain_root\<lparr>parent := Some ''P'', tags := [''t''], difficulty := ''advanced''\<rparr>"
              "\<lambda>s. s"]
  by (simp add: chain_root_def new_flashcard_def)

section \<open>The formatter\<close>

text \<open>
  Claim C9. \<open>format_cards\<close> on the empty card list returns the empty string, for either
  value of the hierarchy flag.
\<close>

theorem format_cards_empty: "format_cards [] hierarchy = []"
  by (simp add: format_cards_def)

theorem format_cards_empty_witness: "format_cards [] True = [] \<and> format_cards [] False = []"
  using format_cards_empty [of True] format_cards_empty [of False] by simp

text \<open>
  Claim C2. With hierarchy grouping, a root card and one child that names the root's
  front as its parent come out as four lines: the child's line is written under the
  root and once more under a separate top-level group headed by the parent string.
\<close>

theorem hierarchical_child_emitted_twice:
  "hierarchical_lines [chain_root, chain_child]
     = [''# R >> r'', ''    # C >> c'', ''# R'', ''    # C >> c'']
   \<and> count_list (hierarchical_lines [chain_root, chain_child]) (child_line chain_child) = 2"
  by code_simp

text \<open>
  Claim C3. A list-answer card with two list items is formatted as its front followed by
  \<^verbatim>\<open>>>1.\<close> and nothing else: neither item occurs in the text of the card, nor in the
  document returned for it.
\<close>

theorem list_answer_items_not_emitted:
  "format_card list_card = Some ''Q >>1.''
   \<and> format_cards [list_card] True = ''# Q >>1.''
   \<and> format_cards [list_card] False = ''# Q >>1.''
   \<and> \<not> py_in ''alpha'' (format_cards [list_card] True)
   \<and> \<not> py_in ''beta'' (format_cards [list_card] True)"
  by code_simp

text \<open>
  Claim C4. For a three-level parent chain the grandchild's line has the same indentation
  as the child's line (four spaces); it stands under a top-level group headed by the
  child's front, not one level below the child.
\<close>

theorem chain_indentation_not_increasing:
  "hierarchical_lines [chain_root, chain_child, chain_grandchild]
     = [''# R >> r'', ''    # C >> c'', ''# R'', ''    # C >> c'', ''# C'', ''    # G >> g'']
   \<and> indent_of (child_line chain_child) = 4
   \<and> indent_of (child_line chain_grandchild) = 4"
  by code_simp


section \<open>The retry wrapper\<close>

lemma backoff_sleep_value:
  "backoff_sleep max_sleep cfg a = Inr d \<Longrightarrow> d = retry_delay cfg * 2 ^ a"
  by (auto simp: backoff_sleep_def backoff_delay_def split: if_splits option.splits)

lemma retry_loop_stop:
  "func (calls lg) = Inl ex \<Longrightarrow> \<not> int a < retry_attempts cfg - 1 \<Longrightarrow>
   snd (retry_loop max_sleep cfg func a (Suc r) le lg) = lg\<lparr>calls := calls lg + 1\<rparr>"
  by (simp add: Let_def)

lemma retry_loop_sleep_fails:
  "func (calls lg) = Inl ex \<Longrightarrow> int a < retry_attempts cfg - 1 \<Longrightarrow>
   backoff_sleep max_sleep cfg a = Inl sleep_ex \<Longrightarrow>
   retry_loop max_sleep cfg func a (Suc r) le lg = (Inl sleep_ex, lg\<lparr>calls := calls lg + 1\<rparr>)"
  by (simp add: Let_def)

lemma retry_loop_retry:
  "func (calls lg) = Inl ex \<Longrightarrow> int a < retry_attempts cfg - 1 \<Longrightarrow>
   backoff_sleep max_sleep cfg a = Inr d \<Longrightarrow>
   retry_loop max_sleep cfg func a (Suc r) le lg
     = retry_loop max_sleep cfg func (a + 1) r (Some ex)
         (lg\<lparr>calls := calls lg + 1, sleeps := sleeps lg @ [d]\<rparr>)"
  by (simp add: Let_def)

lemma retry_loop_log:
  assumes "int a + int r = retry_attempts cfg"
  shows "\<exists>m. sleeps (snd (retry_loop max_sleep cfg func a r le lg))
               = sleeps lg @ map (\<lambda>k. retry_delay cfg * 2 ^ k) [a ..< a + m]
             \<and> calls lg + m + (if r = 0 then 0 else 1)
                 \<le> calls (snd (retry_loop max_sleep cfg func a r le lg))
             \<and> calls (snd (retry_loop max_sleep cfg func a r le lg)) \<le> calls lg + r
             \<and> ((\<forall>k. int k < retry_attempts cfg - 1 \<longrightarrow>
                       backoff_sleep max_sleep cfg k = Inr (retry_delay cfg * 2 ^ k)) \<longrightarrow>
                  r \<noteq> 0 \<longrightarrow>
                  calls (snd (retry_loop max_sleep cfg func a r le lg)) = calls lg + m + 1)"
  using assms
proof (induction r arbitrary: a le lg)
  case 0
  then show ?case by simp
next
  case (Suc r)
  let ?res = "retry_loop max_sleep cfg func a (Suc r) le lg"
  let ?lg1 = "lg\<lparr>calls := calls lg + 1\<rparr>"
  have stop: ?case if "snd ?res = ?lg1"
    using that by (intro exI [of _ 0]) simp
  show ?case
  proof (cases "func (calls lg)")
    case (Inr v)
    then have "snd ?res = ?lg1" by simp
    then show ?thesis by (rule stop)
  next
    case (Inl ex)
    show ?thesis
    proof (cases "int a < retry_attempts cfg - 1")
      case False
      show ?thesis by (rule stop) (rule retry_loop_stop [where func = func and lg = lg, OF Inl False])
    next
      case True
      then have rpos: "r \<noteq> 0" using Suc.prems by auto
      show ?thesis
      proof (cases "backoff_sleep max_sleep cfg a")
        case (Inl sleep_ex)
        have r1: "snd ?res = ?lg1"
          using retry_loop_sleep_fails [where func = func and lg = lg and r = r and le = le,
                  OF \<open>func (calls lg) = Inl ex\<close> True Inl] by simp
        have no: "\<not> (\<forall>k. int k < retry_attempts cfg - 1 \<longrightarrow>
                       backoff_sleep max_sleep cfg k = Inr (retry_delay cfg * 2 ^ k))"
          using True Inl by auto
        show ?thesis using r1 no by (intro exI [of _ 0]) simp
      next
        case (Inr d)
        have d: "d = retry_delay cfg * 2 ^ a" using Inr by (rule backoff_sleep_value)
        let ?lg2 = "lg\<lparr>calls := calls lg + 1, sleeps := sleeps lg @ [d]\<rparr>"
        let ?rec = "retry_loop max_sleep cfg func (a + 1) r (Some ex) ?lg2"
        have eq: "?res = ?rec"
          by (rule retry_loop_retry [where func = func and lg = lg,
                    OF \<open>func (calls lg) = Inl ex\<close> True Inr])
        have pre: "int (a + 1) + int r = retry_attempts cfg" using Suc.prems by simp
        from Suc.IH [OF pre, where le = "Some ex" and lg = ?lg2] rpos
        obtain m where
          sl: "sleeps (snd ?rec) = (sleeps lg @ [d])
                 @ map (\<lambda>k. retry_delay cfg * 2 ^ k) [a + 1 ..< a + 1 + m]"
          and lo: "calls lg + 1 + m + 1 \<le> calls (snd ?rec)"
          and hi: "calls (snd ?rec) \<le> calls lg + 1 + r"
          and ex: "(\<forall>k. int k < retry_attempts cfg - 1 \<longrightarrow>
                       backoff_sleep max_sleep cfg k = Inr (retry_delay cfg * 2 ^ k)) \<longrightarrow>
                   calls (snd ?rec) = calls lg + 1 + m + 1"
          by auto
        have up: "[a ..< a + Suc m] = a # [a + 1 ..< a + 1 + m]"
          by (simp add: upt_conv_Cons)
        have sl': "sleeps (snd ?rec)
                     = sleeps lg @ map (\<lambda>k. retry_delay cfg * 2 ^ k) [a ..< a + Suc m]"
          using sl d up by simp
        show ?thesis
          unfolding eq using sl' lo hi ex by (intro exI [of _ "Suc m"]) simp
      qed
    qed
  qed
qed

lemma retry_loop_rate_limited:
  assumes "int a + int (Suc r) = retry_attempts cfg"
    and "\<forall>k. calls lg \<le> k \<and> k \<le> calls lg + r \<longrightarrow> rate_limited (func k)"
    and "\<forall>k. int k < retry_attempts cfg - 1 \<longrightarrow>
              backoff_sleep max_sleep cfg k = Inr (retry_delay cfg * 2 ^ k)"
  shows "fst (retry_loop max_sleep cfg func a (Suc r) le lg) = func (calls lg + r)
         \<and> calls (snd (retry_loop max_sleep cfg func a (Suc r) le lg)) = calls lg + Suc r"
  using assms(1,2)
proof (induction r arbitrary: a le lg)
  case 0
  then have "rate_limited (func (calls lg))" by simp
  then obtain ex where "func (calls lg) = Inl ex" "is_RateLimitError ex"
    by (auto simp: rate_limited_def split: sum.splits)
  then show ?case using "0.prems"(1) by (simp add: Let_def)
next
  case (Suc r)
  have "rate_limited (func (calls lg))" using Suc.prems(2) by simp
  then obtain ex where ex: "func (calls lg) = Inl ex" "is_RateLimitError ex"
    by (auto simp: rate_limited_def split: sum.splits)
  have lt: "int a < retry_attempts cfg - 1" using Suc.prems(1) by simp
  have sl: "backoff_sleep max_sleep cfg a = Inr (retry_delay cfg * 2 ^ a)"
    using assms(3) lt by simp
  let ?lg2 = "lg\<lparr>calls := calls lg + 1, sleeps := sleeps lg @ [retry_delay cfg * 2 ^ a]\<rparr>"
  have eq: "retry_loop max_sleep cfg func a (Suc (Suc r)) le lg
              = retry_loop max_sleep cfg func (a + 1) (Suc r) (Some ex) ?lg2"
    by (rule retry_loop_retry [where func = func and lg = lg, OF ex(1) lt sl])
  have pre1: "int (a + 1) + int (Suc r) = retry_attempts cfg" using Suc.prems(1) by simp
  have pre2: "\<forall>k. calls ?lg2 \<le> k \<and> k \<le> calls ?lg2 + r \<longrightarrow> rate_limited (func k)"
    using Suc.prems(2) by simp
  show ?case using Suc.IH [OF pre1 pre2, where le = "Some ex"] eq by simp
qed

lemma delays_accepted_all:
  "delays_accepted max_sleep cfg \<Longrightarrow>
   \<forall>k. int k < retry_attempts cfg - 1 \<longrightarrow>
       backoff_sleep max_sleep cfg k = Inr (retry_delay cfg * 2 ^ k)"
  by (auto simp: delays_accepted_def)

text \<open>
  Claim C8, as amended. A call through the retry wrapper invokes the wrapped function at
  most \<open>retry_attempts\<close> times (not at all when that number is not positive), and the
  delays it has slept are, in order, the base delay times \<open>2 ^ 0\<close>, \<open>2 ^ 1\<close>, ..., at
  most one per invocation but the last: the delay before retry \<open>n\<close> is the base delay
  times \<open>2 ^ (n - 1)\<close>. When every delay the loop can ask for is computed and slept
  without an exception, there is exactly one sleep between two invocations, and if every
  one of the \<open>retry_attempts\<close> invocations raises \<open>RateLimitError\<close>, the call ends after
  exactly that many invocations by raising the last of these errors, which is an
  \<open>LLMError\<close>.
\<close>

theorem retry_with_backoff_bounded:
  "int (calls (snd (retry_with_backoff max_sleep cfg func))) \<le> max 0 (retry_attempts cfg)
   \<and> sleeps (snd (retry_with_backoff max_sleep cfg func))
       = map (\<lambda>k. retry_delay cfg * 2 ^ k)
           [0 ..< length (sleeps (snd (retry_with_backoff max_sleep cfg func)))]
   \<and> length (sleeps (snd (retry_with_backoff max_sleep cfg func)))
       \<le> calls (snd (retry_with_backoff max_sleep cfg func)) - 1
   \<and> (delays_accepted max_sleep cfg \<longrightarrow>
        length (sleeps (snd (retry_with_backoff max_sleep cfg func)))
          = calls (snd (retry_with_backoff max_sleep cfg func)) - 1
        \<and> (0 < retry_attempts cfg \<and> (\<forall>k < nat (retry_attempts cfg). rate_limited (func k)) \<longrightarrow>
             fst (retry_with_backoff max_sleep cfg func) = func (nat (retry_attempts cfg) - 1)
             \<and> (\<exists>ex. fst (retry_with_backoff max_sleep cfg func) = Inl ex
                      \<and> is_RateLimitError ex \<and> is_LLMError ex)
             \<and> int (calls (snd (retry_with_backoff max_sleep cfg func))) = retry_attempts cfg))"
proof (cases "0 < retry_attempts cfg")
  case False
  then have "nat (retry_attempts cfg) = 0" by simp
  then show ?thesis using False by (simp add: retry_with_backoff_def)
next
  case True
  let ?lg0 = "\<lparr>calls = 0, sleeps = []\<rparr> :: retry_log"
  let ?res = "retry_with_backoff max_sleep cfg func"
  obtain r where r: "nat (retry_attempts cfg) = Suc r"
    using True by (cases "nat (retry_attempts cfg)") auto
  have pre: "int 0 + int (Suc r) = retry_attempts cfg" using r True by linarith
  have unf: "?res = retry_loop max_sleep cfg func 0 (Suc r) None ?lg0"
    by (simp add: retry_with_backoff_def r)
  from retry_loop_log [OF pre, where max_sleep = max_sleep and func = func and le = None
                         and lg = ?lg0]
  obtain m where
    sl: "sleeps (snd ?res) = map (\<lambda>k. retry_delay cfg * 2 ^ k) [0 ..< m]"
    and lo: "m + 1 \<le> calls (snd ?res)"
    and hi: "calls (snd ?res) \<le> Suc r"
    and ex: "(\<forall>k. int k < retry_attempts cfg - 1 \<longrightarrow>
                  backoff_sleep max_sleep cfg k = Inr (retry_delay cfg * 2 ^ k)) \<longrightarrow>
             calls (snd ?res) = m + 1"
    unfolding unf by auto
  have len: "length (sleeps (snd ?res)) = m" using sl by simp
  have p1: "int (calls (snd ?res)) \<le> max 0 (retry_attempts cfg)"
    using hi r True by linarith
  have p2: "sleeps (snd ?res)
              = map (\<lambda>k. retry_delay cfg * 2 ^ k) [0 ..< length (sleeps (snd ?res))]"
    using sl len by simp
  have p3: "length (sleeps (snd ?res)) \<le> calls (snd ?res) - 1" using len lo by simp
  have p4: "length (sleeps (snd ?res)) = calls (snd ?res) - 1" if "delays_accepted max_sleep cfg"
    using ex delays_accepted_all [OF that] len by simp
  have p5: "fst ?res = func (nat (retry_attempts cfg) - 1)
        \<and> (\<exists>ex. fst ?res = Inl ex \<and> is_RateLimitError ex \<and> is_LLMError ex)
        \<and> int (calls (snd ?res)) = retry_attempts cfg"
    if da: "delays_accepted max_sleep cfg"
      and h: "\<forall>k < nat (retry_attempts cfg). rate_limited (func k)"
  proof -
    have pre2: "\<forall>k. calls ?lg0 \<le> k \<and> k \<le> calls ?lg0 + r \<longrightarrow> rate_limited (func k)"
      using h r by simp
    note rl = retry_loop_rate_limited [OF pre pre2 delays_accepted_all [OF da], where le = None]
    have a: "fst ?res = func r" using rl unf by simp
    have b: "calls (snd ?res) = Suc r" using rl unf by simp
    have "rate_limited (func r)" using h r by simp
    then obtain ex where "func r = Inl ex" "is_RateLimitError ex"
      by (auto simp: rate_limited_def split: sum.splits)
    moreover then have "is_LLMError ex" by (cases ex) auto
    ultimately show ?thesis using a b r True by simp
  qed
  show ?thesis using p1 p2 p3 p4 p5 by blast
qed

theorem retry_with_backoff_bounded_witness:
  "delays_accepted demo_max_sleep demo_config
   \<and> fst (retry_with_backoff demo_max_sleep demo_config
            (\<lambda>k. Inl (RateLimitError ''rate limit'') :: exn + string))
       = Inl (RateLimitError ''rate limit'')
   \<and> calls (snd (retry_with_backoff demo_max_sleep demo_config
                    (\<lambda>k. Inl (RateLimitError ''rate limit'') :: exn + string))) = 3
   \<and> sleeps (snd (retry_with_backoff demo_max_sleep demo_config
                     (\<lambda>k. Inl (RateLimitError ''rate limit'') :: exn + string))) = [2, 4]"
proof -
  let ?f = "\<lambda>k::nat. Inl (RateLimitError ''rate limit'') :: exn + string"
  let ?res = "retry_with_backoff demo_max_sleep demo_config ?f"
  have da: "delays_accepted demo_max_sleep demo_config"
    by (simp add: delays_accepted_def demo_config_def demo_max_sleep_def backoff_sleep_def
          backoff_delay_def time_sleep_def less_Suc_eq numeral_2_eq_2)
  have h: "0 < retry_attempts demo_config
           \<and> (\<forall>k < nat (retry_attempts demo_config). rate_limited (?f k))"
    by (simp add: demo_config_def rate_limited_def)
  have u: "[0 ..< 3 - 1] = [0, Suc 0]" by (simp add: upt_rec)
  from retry_with_backoff_bounded [of demo_max_sleep demo_config ?f] da h
  have "fst ?res = ?f (nat (retry_attempts demo_config) - 1)"
    and c: "int (calls (snd ?res)) = retry_attempts demo_config"
    and l: "length (sleeps (snd ?res)) = calls (snd ?res) - 1"
    and s: "sleeps (snd ?res)
              = map (\<lambda>k. retry_delay demo_config * 2 ^ k) [0 ..< length (sleeps (snd ?res))]"
    by blast+
  moreover from c have c3: "calls (snd ?res) = 3" by (simp add: demo_config_def)
  moreover have "sleeps (snd ?res) = [2, 4]"
    using s l c3 u by (simp add: demo_config_def)
  ultimately show ?thesis using da by simp
qed

text \<open>
  Claim C8, as stated, fails: with a negative base delay and a wrapped function that
  always raises \<open>RateLimitError\<close>, the first handler's \<^verbatim>\<open>time.sleep\<close> raises
  \<open>ValueError\<close>; the call ends after one invocation of three, with an exception that is
  not an \<open>LLMError\<close>.
\<close>

theorem retry_negative_delay_counterexample:
  "retry_with_backoff demo_max_sleep negative_delay_config
     (\<lambda>k. Inl (RateLimitError ''rate limit'') :: exn + string)
     = (Inl (ValueError ''sleep length must be non-negative''), \<lparr>calls = 1, sleeps = []\<rparr>)
   \<and> retry_attempts negative_delay_config = 3
   \<and> \<not> is_LLMError (ValueError ''sleep length must be non-negative'')"
  by (simp add: retry_with_backoff_def negative_delay_config_def demo_config_def
        demo_max_sleep_def backoff_sleep_def backoff_delay_def time_sleep_def
        numeral_3_eq_3 Let_def)

section \<open>The escaper\<close>

lemma spaced_refl: "spaced s s"
  by (induction s) (auto intro: spaced.intros)

lemma spaced_append_same: "spaced s t \<Longrightarrow> spaced (r @ s) (r @ t)"
  by (induction r) (auto intro: spaced.intros)

inductive_cases spaced_ConsE: "spaced s (c # t)"

lemma spaced_trans_aux: "spaced t u \<Longrightarrow> spaced s t \<Longrightarrow> spaced s u"
proof (induction arbitrary: s rule: spaced.induct)
  case spaced_Nil
  then show ?case by simp
next
  case (spaced_Cons t u c)
  from spaced_Cons.prems show ?case
    by (rule spaced_ConsE) (auto intro: spaced.intros spaced_Cons.IH)
next
  case (spaced_Ins t u)
  then show ?case by (auto intro: spaced.intros)
qed

lemma spaced_trans: "spaced s t \<Longrightarrow> spaced t u \<Longrightarrow> spaced s u"
  by (rule spaced_trans_aux)

lemma spaced_filter:
  "spaced s t \<Longrightarrow> filter (\<lambda>c. c \<noteq> CHR '' '') t = filter (\<lambda>c. c \<noteq> CHR '' '') s"
  by (induction rule: spaced.induct) auto

lemma spaced_prefix:
  "spaced s t \<Longrightarrow> CHR '' '' \<notin> set tok \<Longrightarrow> prefix tok t \<Longrightarrow> prefix tok s"
proof (induction arbitrary: tok rule: spaced.induct)
  case spaced_Nil
  then show ?case by simp
next
  case (spaced_Cons s t c)
  then show ?case by (cases tok) auto
next
  case (spaced_Ins s t)
  then show ?case by (cases tok) auto
qed

lemma spaced_py_in:
  "spaced s t \<Longrightarrow> CHR '' '' \<notin> set tok \<Longrightarrow> tok \<noteq> [] \<Longrightarrow> py_in tok t \<Longrightarrow> py_in tok s"
proof (induction rule: spaced.induct)
  case spaced_Nil
  then show ?case by simp
next
  case (spaced_Cons s t c)
  then show ?case
    using spaced_prefix [OF spaced.spaced_Cons [OF spaced_Cons.hyps, of c], of tok] by auto
next
  case (spaced_Ins s t)
  then show ?case  by (cases tok) auto
qed

lemma str_replace_spaced:
  "spaced s (str_replace (a # r) (a # CHR '' '' # r) s)"
proof (induction "a # r" "a # CHR '' '' # r" s rule: str_replace.induct)
  case 2
  then show ?case by (simp add: spaced.intros)
next
  case (3 c cs)
  show ?case
  proof (cases "prefix (a # r) (c # cs)")
    case True
    then obtain rest where cs: "c = a" "cs = r @ rest" by (auto simp: prefix_def)
    then have d: "drop (length r) cs = rest" by simp
    have "spaced rest (str_replace (a # r) (a # CHR '' '' # r) rest)"
      using 3(1) [OF True] d by simp
    then have "spaced (a # r @ rest) (a # CHR '' '' # r @ str_replace (a # r) (a # CHR '' '' # r) rest)"
      by (intro spaced.intros spaced_append_same)
    then show ?thesis using True cs d by simp
  next
    case False
    have "spaced cs (str_replace (a # r) (a # CHR '' '' # r) cs)" using 3(2) [OF False] .
    then have "spaced (c # cs) (c # str_replace (a # r) (a # CHR '' '' # r) cs)"
      by (rule spaced.intros)
    then show ?thesis using False by auto
  qed
qed


lemma replace_prefix_back:
  "CHR '' '' \<notin> set tok \<Longrightarrow> prefix tok (str_replace (a # r) (a # CHR '' '' # r) s) \<Longrightarrow> prefix tok s"
  using spaced_prefix [OF str_replace_spaced] by blast

lemma replace_py_in_back:
  "CHR '' '' \<notin> set tok \<Longrightarrow> tok \<noteq> [] \<Longrightarrow> py_in tok (str_replace (a # r) (a # CHR '' '' # r) s) \<Longrightarrow> py_in tok s"
  using spaced_py_in [OF str_replace_spaced] by blast

lemma pair_escaped:
  assumes "a \<noteq> CHR '' ''" "b \<noteq> CHR '' ''"
    and "a = b \<longrightarrow> \<not> py_in [a, a, a] s"
  shows "\<not> py_in [a, b] (str_replace [a, b] [a, CHR '' '', b] s)"
  using assms(3)
proof (induction "[a, b]" "[a, CHR '' '', b]" s rule: str_replace.induct)
  case 2
  then show ?case by simp
next
  case (3 c cs)
  show ?case
  proof (cases "prefix [a, b] (c # cs)")
    case True
    then obtain rest where cs: "c = a" "cs = b # rest" by (auto simp: prefix_def)
    have nt: "a = b \<longrightarrow> \<not> py_in [a, a, a] rest" using 3(3) cs by auto
    have ih: "\<not> py_in [a, b] (str_replace [a, b] [a, CHR '' '', b] rest)"
      using 3(1) [OF True] nt cs by simp
    have np: "\<not> prefix [a] (str_replace [a, b] [a, CHR '' '', b] rest)" if "a = b"
    proof
      assume "prefix [a] (str_replace [a, b] [a, CHR '' '', b] rest)"
      then have "prefix [a] rest" using replace_prefix_back [of "[a]" a "[b]" rest] assms(1) by simp
      then show False using 3(3) cs that by (auto simp: prefix_def)
    qed
    have "str_replace [a, b] [a, CHR '' '', b] (c # cs) = a # CHR '' '' # b # str_replace [a, b] [a, CHR '' '', b] rest"
      using cs by simp
    then show ?thesis using ih np assms(1,2) by (auto simp: prefix_def)
  next
    case False
    have nt: "a = b \<longrightarrow> \<not> py_in [a, a, a] cs" using 3(3) by auto
    have ih: "\<not> py_in [a, b] (str_replace [a, b] [a, CHR '' '', b] cs)"
      using 3(2) [OF False] nt by simp
    have "\<not> prefix [a, b] (c # str_replace [a, b] [a, CHR '' '', b] cs)"
    proof
      assume p: "prefix [a, b] (c # str_replace [a, b] [a, CHR '' '', b] cs)"
      then have "c = a" "prefix [b] (str_replace [a, b] [a, CHR '' '', b] cs)" by auto
      then have "prefix [b] cs" using replace_prefix_back [of "[b]" a "[b]" cs] assms(2) by simp
      then show False using False \<open>c = a\<close> by (auto simp: prefix_def)
    qed
    then show ?thesis using ih False by auto
  qed
qed

lemma ref_escaped:
  "\<not> py_in ''#[['' (str_replace ''#[['' ''# [['' s)"
proof (induction "''#[[''" "''# [[''" s rule: str_replace.induct)
  case 2
  then show ?case by simp
next
  case (3 c cs)
  show ?case
  proof (cases "prefix ''#[['' (c # cs)")
    case True
    then obtain rest where cs: "c = CHR ''#''" "cs = ''[['' @ rest" by (auto simp: prefix_def)
    have ih: "\<not> py_in ''#[['' (str_replace ''#[['' ''# [['' rest)"
      using 3(1) [OF True] cs by simp
    have "str_replace ''#[['' ''# [['' (c # cs) = ''# [['' @ str_replace ''#[['' ''# [['' rest"
      using cs by simp
    then show ?thesis using ih by (auto simp: prefix_def)
  next
    case False
    have ih: "\<not> py_in ''#[['' (str_replace ''#[['' ''# [['' cs)"
      using 3(2) [OF False] by simp
    have "\<not> prefix ''#[['' (c # str_replace ''#[['' ''# [['' cs)"
    proof
      assume p: "prefix ''#[['' (c # str_replace ''#[['' ''# [['' cs)"
      then have "c = CHR ''#''" "prefix ''[['' (str_replace ''#[['' ''# [['' cs)" by auto
      then have "prefix ''[['' cs" using replace_prefix_back [of "''[[''" "CHR ''#''" "''[[''" cs] by simp
      then show False using False \<open>c = CHR ''#''\<close> by (auto simp: prefix_def)
    qed
    then show ?thesis using ih False by auto
  qed
qed


lemma spaced_absent:
  "spaced s t \<Longrightarrow> CHR '' '' \<notin> set tok \<Longrightarrow> tok \<noteq> [] \<Longrightarrow> \<not> py_in tok s \<Longrightarrow> \<not> py_in tok t"
  using spaced_py_in by blast

lemma escape_structure:
  assumes "text \<noteq> []"
  defines "t1 \<equiv> str_replace ''::'' '': :'' text"
  defines "t2 \<equiv> str_replace ''>>'' ''> >'' t1"
  defines "t3 \<equiv> str_replace ''<<'' ''< <'' t2"
  defines "t4 \<equiv> str_replace '';;'' ''; ;'' t3"
  defines "t5 \<equiv> str_replace ''<>'' ''< >'' t4"
  defines "t6 \<equiv> str_replace ''#[['' ''# [['' t5"
  defines "t7 \<equiv> str_replace '']]'' ''] ]'' t6"
  shows "escape_special_chars text = t7
         \<or> escape_special_chars text = str_replace ''}}'' ''} }'' (str_replace ''{{'' ''{ {'' t7)"
  using assms(1)
  by (simp add: escape_special_chars_def replacements_def Let_def
        t1_def t2_def t3_def t4_def t5_def t6_def t7_def)

lemma mark_spaced: "spaced s (mark_starts p s)"
  by (induction s) (auto intro: spaced.intros)

lemma replace_space_head:
  "a \<noteq> CHR '' '' \<Longrightarrow>
   str_replace (a # r) new (CHR '' '' # s) = CHR '' '' # str_replace (a # r) new s"
  by simp

lemma pair_step:
  assumes "a \<noteq> CHR '' ''" and "b \<noteq> CHR '' ''"
    and "a = b \<longrightarrow> \<not> py_in [a, a, a] inp"
  shows "str_replace [a, b] [a, CHR '' '', b] (mark_starts p inp)
           = mark_starts (\<lambda>s. p s \<or> prefix [a, b] s) inp"
  using assms(3)
proof (induction inp rule: induct_list012)
  case 1
  then show ?case by simp
next
  case (2 x)
  then show ?case using assms(1,2) by simp
next
  case (3 x y zs)
  let ?q = "\<lambda>s. p s \<or> prefix [a, b] s"
  let ?R = "str_replace [a, b] [a, CHR '' '', b]"
  have ih1: "?R (mark_starts p zs) = mark_starts ?q zs" using 3 by auto
  have ih2: "?R (mark_starts p (y # zs)) = mark_starts ?q (y # zs)" using 3 by auto
  show ?case
  proof (cases "p (x # y # zs)")
    case True
    then show ?thesis using ih2 assms(1,2) by simp
  next
    case np: False
    show ?thesis
    proof (cases "x = a \<and> y = b")
      case True
      have nq: "\<not> prefix [a, b] (y # zs)"
      proof
        assume "prefix [a, b] (y # zs)"
        then have "a = b" "prefix [a] zs" using True by auto
        then show False using "3.prems" True by (cases zs) auto
      qed
      show ?thesis
      proof (cases "p (y # zs)")
        case True
        then show ?thesis using np \<open>x = a \<and> y = b\<close> nq ih1 assms(1,2) by simp
      next
        case False
        then show ?thesis using np \<open>x = a \<and> y = b\<close> nq ih1 assms(1,2) by simp
      qed
    next
      case False
      have "\<not> prefix [a, b] (x # mark_starts p (y # zs))"
        using False by auto
      then show ?thesis using np False ih2 by auto
    qed
  qed
qed


lemma ref_step:
  assumes "\<forall>s. p s \<longrightarrow> \<not> prefix ''['' s"
  shows "str_replace ''#[['' ''# [['' (mark_starts p inp)
           = mark_starts (\<lambda>s. p s \<or> prefix ''#[['' s) inp"
proof (induction inp rule: length_induct)
  case (1 xs)
  let ?q = "\<lambda>s. p s \<or> prefix ''#[['' s"
  let ?R = "str_replace ''#[['' ''# [[''"
  have ih: "?R (mark_starts p ys) = mark_starts ?q ys" if "length ys < length xs" for ys
    using 1 that by blast
  show ?case
  proof (cases xs)
    case Nil
    then show ?thesis by simp
  next
    case (Cons x cs)
    have ihc: "?R (mark_starts p cs) = mark_starts ?q cs" using ih Cons by simp
    show ?thesis
    proof (cases "p (x # cs)")
      case True
      then show ?thesis using Cons ihc by simp
    next
      case np: False
      show ?thesis
      proof (cases "prefix ''#[['' (x # cs)")
        case True
        then obtain rest where rest: "x = CHR ''#''" "cs = CHR ''['' # CHR ''['' # rest"
          by (auto simp: prefix_def)
        have n1: "\<not> p (CHR ''['' # CHR ''['' # rest)" "\<not> p (CHR ''['' # rest)"
          using assms by auto
        have ihr: "?R (mark_starts p rest) = mark_starts ?q rest" using ih Cons rest by simp
        show ?thesis using Cons rest np n1 ihr by simp
      next
        case False
        have "\<not> prefix ''#[['' (x # mark_starts p cs)"
        proof
          assume "prefix ''#[['' (x # mark_starts p cs)"
          then have "x = CHR ''#''" "prefix ''[['' (mark_starts p cs)" by auto
          then have "prefix ''[['' cs" using spaced_prefix [OF mark_spaced, where tok = "''[[''"] by simp
          then show False using False \<open>x = CHR ''#''\<close> by auto
        qed
        then show ?thesis using Cons np False ihc by auto
      qed
    qed
  qed
qed

lemma mark_never: "mark_starts (\<lambda>s. False) s = s"
  by (induction s) auto

lemma fold_replacements:
  assumes "no_overlap inp"
  shows "fold (\<lambda>(original, replacement) t. str_replace original replacement t) replacements inp
           = spec_neutralize inp"
proof -
  from assms have n: "\<not> py_in '':::'' inp" "\<not> py_in ''>>>'' inp" "\<not> py_in ''<<<'' inp"
    "\<not> py_in '';;;'' inp" "\<not> py_in '']]]'' inp"
    by (simp_all add: no_overlap_def)
  let ?p0 = "\<lambda>s::string. False"
  let ?p1 = "\<lambda>s. ?p0 s \<or> prefix ''::'' s"
  let ?p2 = "\<lambda>s. ?p1 s \<or> prefix ''>>'' s"
  let ?p3 = "\<lambda>s. ?p2 s \<or> prefix ''<<'' s"
  let ?p4 = "\<lambda>s. ?p3 s \<or> prefix '';;'' s"
  let ?p5 = "\<lambda>s. ?p4 s \<or> prefix ''<>'' s"
  let ?p6 = "\<lambda>s. ?p5 s \<or> prefix ''#[['' s"
  let ?p7 = "\<lambda>s. ?p6 s \<or> prefix '']]'' s"
  have s1: "str_replace ''::'' '': :'' inp = mark_starts ?p1 inp"
    using pair_step [of "CHR '':''" "CHR '':''" inp ?p0] n(1) by (simp add: mark_never)
  have s2: "str_replace ''>>'' ''> >'' (mark_starts ?p1 inp) = mark_starts ?p2 inp"
    using pair_step [of "CHR ''>''" "CHR ''>''" inp ?p1] n(2) by simp
  have s3: "str_replace ''<<'' ''< <'' (mark_starts ?p2 inp) = mark_starts ?p3 inp"
    using pair_step [of "CHR ''<''" "CHR ''<''" inp ?p2] n(3) by simp
  have s4: "str_replace '';;'' ''; ;'' (mark_starts ?p3 inp) = mark_starts ?p4 inp"
    using pair_step [of "CHR '';''" "CHR '';''" inp ?p3] n(4) by simp
  have s5: "str_replace ''<>'' ''< >'' (mark_starts ?p4 inp) = mark_starts ?p5 inp"
    using pair_step [of "CHR ''<''" "CHR ''>''" inp ?p4] by simp
  have s6: "str_replace ''#[['' ''# [['' (mark_starts ?p5 inp) = mark_starts ?p6 inp"
    by (rule ref_step) (auto simp: prefix_def)
  have s7: "str_replace '']]'' ''] ]'' (mark_starts ?p6 inp) = mark_starts ?p7 inp"
    using pair_step [of "CHR '']''" "CHR '']''" inp ?p6] n(5) by simp
  have p7: "?p7 = token_starts"
    by (auto simp: token_starts_def replacements_def fun_eq_iff)
  have "fold (\<lambda>(original, replacement) t. str_replace original replacement t) replacements inp
          = mark_starts ?p7 inp"
    by (simp only: replacements_def fold_simps split_conv id_apply comp_apply s1 s2 s3 s4 s5 s6 s7)
  then show ?thesis unfolding spec_neutralize_def p7 .
qed

lemma escape_as_braces:
  "escape_special_chars inp
     = escape_braces
         (fold (\<lambda>(original, replacement) t. str_replace original replacement t) replacements inp)"
  by (simp add: escape_special_chars_def escape_braces_def Let_def replacements_def)

lemma escape_spaced_clean:
  "spaced text (escape_special_chars text)
   \<and> (no_overlap text \<longrightarrow>
        (\<forall>tok \<in> set (map fst replacements). \<not> py_in tok (escape_special_chars text)))"
proof (cases "text = []")
  case True
  then show ?thesis by (simp add: escape_special_chars_def replacements_def spaced.intros)
next
  case False
  define t1 where "t1 = str_replace ''::'' '': :'' text"
  define t2 where "t2 = str_replace ''>>'' ''> >'' t1"
  define t3 where "t3 = str_replace ''<<'' ''< <'' t2"
  define t4 where "t4 = str_replace '';;'' ''; ;'' t3"
  define t5 where "t5 = str_replace ''<>'' ''< >'' t4"
  define t6 where "t6 = str_replace ''#[['' ''# [['' t5"
  define t7 where "t7 = str_replace '']]'' ''] ]'' t6"
  define e where "e = escape_special_chars text"
  have e: "e = t7 \<or> e = str_replace ''}}'' ''} }'' (str_replace ''{{'' ''{ {'' t7)"
    using escape_structure [OF False]
    unfolding e_def t1_def t2_def t3_def t4_def t5_def t6_def t7_def .
  have s1: "spaced text t1" unfolding t1_def by (rule str_replace_spaced)
  have s2: "spaced t1 t2" unfolding t2_def by (rule str_replace_spaced)
  have s3: "spaced t2 t3" unfolding t3_def by (rule str_replace_spaced)
  have s4: "spaced t3 t4" unfolding t4_def by (rule str_replace_spaced)
  have s5: "spaced t4 t5" unfolding t5_def by (rule str_replace_spaced)
  have s6: "spaced t5 t6" unfolding t6_def by (rule str_replace_spaced)
  have s7: "spaced t6 t7" unfolding t7_def by (rule str_replace_spaced)
  have "spaced t7 (str_replace ''}}'' ''} }'' (str_replace ''{{'' ''{ {'' t7))"
    by (rule spaced_trans [OF str_replace_spaced str_replace_spaced])
  then have e7: "spaced t7 e" using e spaced_refl by auto
  have e6: "spaced t6 e" by (rule spaced_trans [OF s7 e7])
  have e5: "spaced t5 e" by (rule spaced_trans [OF s6 e6])
  have e4: "spaced t4 e" by (rule spaced_trans [OF s5 e5])
  have e3: "spaced t3 e" by (rule spaced_trans [OF s4 e4])
  have e2: "spaced t2 e" by (rule spaced_trans [OF s3 e3])
  have e1: "spaced t1 e" by (rule spaced_trans [OF s2 e2])
  have e0: "spaced text e" by (rule spaced_trans [OF s1 e1])
  have x1: "spaced text t1" by (rule s1)
  have x2: "spaced text t2" by (rule spaced_trans [OF x1 s2])
  have x3: "spaced text t3" by (rule spaced_trans [OF x2 s3])
  have x4: "spaced text t4" by (rule spaced_trans [OF x3 s4])
  have x5: "spaced text t5" by (rule spaced_trans [OF x4 s5])
  have x6: "spaced text t6" by (rule spaced_trans [OF x5 s6])
  have part1: "spaced text e" by (rule e0)
  have part2: "\<forall>tok \<in> set (map fst replacements). \<not> py_in tok e" if no: "no_overlap text"
  proof -
    from no have n: "\<not> py_in '':::'' text" "\<not> py_in ''>>>'' text" "\<not> py_in ''<<<'' text"
      "\<not> py_in '';;;'' text" "\<not> py_in '']]]'' text"
      by (simp_all add: no_overlap_def)
    have "\<not> py_in ''::'' t1" unfolding t1_def using n(1) by (intro pair_escaped) simp_all
    then have k1: "\<not> py_in ''::'' e" by (intro spaced_absent [OF e1]) simp_all
    have "\<not> py_in ''>>>'' t1" using n(2) by (intro spaced_absent [OF x1]) simp_all
    then have "\<not> py_in ''>>'' t2" unfolding t2_def by (intro pair_escaped) simp_all
    then have k2: "\<not> py_in ''>>'' e" by (intro spaced_absent [OF e2]) simp_all
    have "\<not> py_in ''<<<'' t2" using n(3) by (intro spaced_absent [OF x2]) simp_all
    then have "\<not> py_in ''<<'' t3" unfolding t3_def by (intro pair_escaped) simp_all
    then have k3: "\<not> py_in ''<<'' e" by (intro spaced_absent [OF e3]) simp_all
    have "\<not> py_in '';;;'' t3" using n(4) by (intro spaced_absent [OF x3]) simp_all
    then have "\<not> py_in '';;'' t4" unfolding t4_def by (intro pair_escaped) simp_all
    then have k4: "\<not> py_in '';;'' e" by (intro spaced_absent [OF e4]) simp_all
    have "\<not> py_in ''<>'' t5" unfolding t5_def by (intro pair_escaped) simp_all
    then have k5: "\<not> py_in ''<>'' e" by (intro spaced_absent [OF e5]) simp_all
    have "\<not> py_in ''#[['' t6" unfolding t6_def by (rule ref_escaped)
    then have k6: "\<not> py_in ''#[['' e" by (intro spaced_absent [OF e6]) simp_all
    have "\<not> py_in '']]]'' t6" using n(5) by (intro spaced_absent [OF x6]) simp_all
    then have "\<not> py_in '']]'' t7" unfolding t7_def by (intro pair_escaped) simp_all
    then have k7: "\<not> py_in '']]'' e" by (intro spaced_absent [OF e7]) simp_all
    show ?thesis using k1 k2 k3 k4 k5 k6 k7 by (simp add: replacements_def)
  qed
  show ?thesis using part1 part2 unfolding e_def by blast
qed

text \<open>
  Claim C1, as amended. The escaped text is the input with spaces inserted and nothing
  else changed. When no two token occurrences overlap in the input (no \<open>:\<close>, \<open>>\<close>,
  \<open><\<close>, \<open>;\<close> or \<open>]\<close> three times in a row), the escaper puts a single space after the
  first character of each occurrence of the seven tokens, inside a cloze span as well as
  outside, and then spaces out the brace pairs when both occur without a validated span;
  where a validated span is found the braces stay as they are; and the escaped text
  contains none of the seven tokens. The text emitted for a disabled card, or for a card
  of a type written as front, delimiter, back, is the escaped front, a delimiter between
  two spaces, and the escaped back.
\<close>

theorem escape_neutralizes:
  "spaced text (escape_special_chars text)
   \<and> (no_overlap text \<longrightarrow>
        escape_special_chars text = escape_braces (spec_neutralize text)
        \<and> (cloze_search (spec_neutralize text) \<longrightarrow>
             escape_special_chars text = spec_neutralize text)
        \<and> (\<forall>tok \<in> set (map fst replacements). \<not> py_in tok (escape_special_chars text)))
   \<and> (direction c = DISABLED
        \<or> card_type c \<in> set [CONCEPT, BASIC, DESCRIPTOR, MULTILINE_BASIC, MULTILINE_DESCRIPTOR] \<longrightarrow>
        (\<exists>delim \<in> set delimiters.
           format_card c = Some (escape_special_chars (front c) @ '' '' @ delim @ '' ''
                                 @ escape_special_chars (back c))))"
proof (intro conjI impI)
  show "spaced text (escape_special_chars text)"
    using escape_spaced_clean [of "text"] by blast
next
  assume no: "no_overlap text"
  show eq: "escape_special_chars text = escape_braces (spec_neutralize text)"
    using escape_as_braces [of "text"] fold_replacements [OF no] by simp
  show "escape_special_chars text = spec_neutralize text" if "cloze_search (spec_neutralize text)"
    using eq that by (simp add: escape_braces_def)
  show "\<forall>tok \<in> set (map fst replacements). \<not> py_in tok (escape_special_chars text)"
    using escape_spaced_clean [of "text"] no by blast
next
  assume "direction c = DISABLED
          \<or> card_type c \<in> set [CONCEPT, BASIC, DESCRIPTOR, MULTILINE_BASIC, MULTILINE_DESCRIPTOR]"
  then show "\<exists>delim \<in> set delimiters.
               format_card c = Some (escape_special_chars (front c) @ '' '' @ delim @ '' ''
                                     @ escape_special_chars (back c))"
    by (cases "direction c") (auto simp: format_card_def delimiters_def Let_def)
qed

theorem escape_neutralizes_witness:
  "no_overlap ''{{a::b}} >> c''
   \<and> cloze_search (spec_neutralize ''{{a::b}} >> c'')
   \<and> escape_special_chars ''{{a::b}} >> c'' = spec_neutralize ''{{a::b}} >> c''
   \<and> \<not> py_in ''::'' (escape_special_chars ''{{a::b}} >> c'')
   \<and> \<not> py_in ''>>'' (escape_special_chars ''{{a::b}} >> c'')
   \<and> (\<exists>delim \<in> set delimiters.
         format_card (new_flashcard BASIC ''A::B'' ''C'')
           = Some (escape_special_chars ''A::B'' @ '' '' @ delim @ '' ''
                   @ escape_special_chars ''C''))"
proof -
  have h1: "no_overlap ''{{a::b}} >> c''" by code_simp
  have h2: "cloze_search (spec_neutralize ''{{a::b}} >> c'')" by code_simp
  have h3: "card_type (new_flashcard BASIC ''A::B'' ''C'')
              \<in> set [CONCEPT, BASIC, DESCRIPTOR, MULTILINE_BASIC, MULTILINE_DESCRIPTOR]"
    by (simp add: new_flashcard_def)
  from escape_neutralizes [of "''{{a::b}} >> c''" "new_flashcard BASIC ''A::B'' ''C''"] h1 h2 h3
  have a: "escape_special_chars ''{{a::b}} >> c'' = spec_neutralize ''{{a::b}} >> c''"
    and b: "\<forall>tok \<in> set (map fst replacements).
              \<not> py_in tok (escape_special_chars ''{{a::b}} >> c'')"
    and c: "\<exists>delim \<in> set delimiters.
              format_card (new_flashcard BASIC ''A::B'' ''C'')
                = Some (escape_special_chars (front (new_flashcard BASIC ''A::B'' ''C''))
                        @ '' '' @ delim @ '' ''
                        @ escape_special_chars (back (new_flashcard BASIC ''A::B'' ''C'')))"
    by blast+
  have b1: "\<not> py_in ''::'' (escape_special_chars ''{{a::b}} >> c'')"
    and b2: "\<not> py_in ''>>'' (escape_special_chars ''{{a::b}} >> c'')"
    using b by (simp_all add: replacements_def)
  have f: "front (new_flashcard BASIC ''A::B'' ''C'') = ''A::B''"
    "back (new_flashcard BASIC ''A::B'' ''C'') = ''C''"
    by (simp_all add: new_flashcard_def)
  have c': "\<exists>delim \<in> set delimiters.
              format_card (new_flashcard BASIC ''A::B'' ''C'')
                = Some (escape_special_chars ''A::B'' @ '' '' @ delim @ '' ''
                        @ escape_special_chars ''C'')"
    using c unfolding f .
  show ?thesis using h1 h2 a b1 b2 c' by blast
qed

text \<open>
  Claim C1, as stated, fails: in a run of three colons the scan replaces the first two and
  leaves a token formed by the last two, and a token inside a validated cloze span is
  spaced out, not preserved. In the emitted text, the front of a cloze card and the header
  of a parent group are written as they are, tokens included.
\<close>

theorem escape_counterexample:
  "escape_special_chars '':::'' = '': ::''
   \<and> py_in ''::'' (escape_special_chars '':::'')
   \<and> cloze_search ''{{a::b}}''
   \<and> escape_special_chars ''{{a::b}}'' = ''{{a: :b}}''
   \<and> format_card (new_flashcard BASIC ''x:::y'' ''{{a::b}}'') = Some ''x: ::y >> {{a: :b}}''
   \<and> format_card (new_flashcard CLOZE ''x::y {{c}}'' []) = Some ''x::y {{c}}''
   \<and> hierarchical_lines [(new_flashcard BASIC ''C'' ''c'')\<lparr>parent := Some ''P::Q''\<rparr>]
       = [''# P::Q'', ''    # C >> c'']"
  by code_simp

section \<open>Cloze cards\<close>

text \<open>
  Claim C5, as amended. Formatting a cloze card always returns a text. When the direction
  is not \<open>DISABLED\<close> and the front contains a well-formed span, the text is the front,
  verbatim. A cloze card with direction \<open>DISABLED\<close> is written like every disabled card:
  escaped front, the delimiter \<^verbatim>\<open>=-\<close>, escaped back.
\<close>

theorem cloze_verbatim:
  assumes "card_type c = CLOZE"
  shows "(\<exists>s. format_card c = Some s)
         \<and> (direction c \<noteq> DISABLED \<and> cloze_search (front c) \<longrightarrow> format_card c = Some (front c))
         \<and> (direction c = DISABLED \<longrightarrow>
              format_card c = Some (escape_special_chars (front c) @ '' =- ''
                                    @ escape_special_chars (back c)))"
  using assms by (simp add: format_card_def format_cloze_def Let_def)

theorem cloze_verbatim_witness:
  "format_card (new_flashcard CLOZE ''X causes {{Y}}'' []) = Some ''X causes {{Y}}''"
  using cloze_verbatim [of "new_flashcard CLOZE ''X causes {{Y}}'' []"]
  by (simp add: new_flashcard_def cloze_match_here_def)

text \<open>
  Claim C5, as stated, fails: a disabled cloze card with a well-formed span is not emitted
  verbatim, and a cloze front without a well-formed span is emitted as it is, not escaped.
\<close>

theorem cloze_counterexample:
  "cloze_search ''a::{{b}}''
   \<and> format_card ((new_flashcard CLOZE ''a::{{b}}'' [])\<lparr>direction := DISABLED\<rparr>)
       = Some ''a: :{{b}} =- ''
   \<and> \<not> cloze_search ''A::B {{C''
   \<and> escape_special_chars ''A::B {{C'' = ''A: :B {{C''
   \<and> format_card (new_flashcard CLOZE ''A::B {{C'' []) = Some ''A::B {{C''"
  by code_simp


end
